theory Spec2Isabelle
  imports Main "HOL-Library.AList" "HOL-Library.Extended_Nat"
begin

section \<open>Data model (src/types.ts)\<close>

datatype GameState = LOBBY | READING | QUESTION | REVEAL | LEADERBOARD | FINAL_RESULTS

text \<open>
  A \<open>Question\<close> of the source also carries its prompt and its four option strings (Thai
  text). No handler of the server reads them, so the model keeps the identifier and the index
  of the correct option only.
\<close>

record Question =
  question_id :: nat
  correctAnswer :: int

text \<open>
  \<open>Player.id\<close> is named \<open>player_id\<close> here (\<open>id\<close> is the identity function of HOL).
  \<open>number | null\<close> fields are options; \<open>answerTime\<close> holds a value of \<open>Date.now()\<close>,
  a natural number of milliseconds.
\<close>

record Player =
  player_id :: string
  name :: string
  avatar :: "string option"
  score :: int
  lastScoreChange :: int
  currentAnswer :: "int option"
  hasChangedAnswer :: bool
  answerTime :: "nat option"
  isHost :: bool

text \<open>
  \<open>players: Record<string, Player>\<close> is an association list in insertion order: this is
  the order in which \<open>Object.values\<close> enumerates the string keys of an object, and the
  stable sort of the scoring pass depends on it.
\<close>

record GameData =
  state :: GameState
  currentQuestionIndex :: nat
  questions :: "Question list"
  players :: "(string \<times> Player) list"
  timer :: int

text \<open>
  The \<open>reason\<close> strings of the feedback event are Thai sentences in the source; the model
  names the six of them.
\<close>

datatype reason =
    FirstFiveUnchanged   \<comment> \<open>among the first 5 correct who did not change their answer\<close>
  | CorrectUnchanged     \<comment> \<open>correct and did not change the answer\<close>
  | ChangedFinalThree    \<comment> \<open>changed to the correct answer in the last 3 seconds\<close>
  | ChangedCorrect       \<comment> \<open>changed to the correct answer\<close>
  | CorrectPlain         \<comment> \<open>correct\<close>
  | Incorrect            \<comment> \<open>the answer is not correct\<close>

text \<open>
  What the server emits: \<open>io.emit('gameUpdate', gameState)\<close> goes to every connection and
  carries the snapshot; \<open>io.to(id).emit('answerFeedback', {correct, points, reason})\<close> goes
  to the room of one connection identifier.
\<close>

datatype event =
    GameUpdate GameData
  | AnswerFeedback string bool int reason

text \<open>The three completion callbacks that \<open>startReadingPhase\<close> nests.\<close>

datatype callback = ToQuestion | ToReveal | ToLeaderboard

datatype error = TypeError

text \<open>
  The module-level variables of src/server.ts: \<open>gameState\<close>, the scratch table
  \<open>playerFirstAnswers\<close>, and \<open>timerInterval\<close>. A handle that is \<open>null\<close> and a handle
  that \<open>clearInterval\<close> has stopped behave alike (the code only tests the handle and
  clears it), so \<open>timerInterval\<close> is \<open>None\<close> for both and \<open>Some cb\<close> for a live interval
  whose completion callback is \<open>cb\<close>. \<open>sent\<close> is the log of everything emitted so far,
  oldest first.
\<close>

record server =
  gameState :: GameData
  playerFirstAnswers :: "string \<rightharpoonup> int"
  timerInterval :: "callback option"
  sent :: "event list"

definition QUESTIONS :: "Question list" where
  "QUESTIONS =
    [\<lparr>question_id = 1, correctAnswer = 0\<rparr>,
     \<lparr>question_id = 2, correctAnswer = 0\<rparr>,
     \<lparr>question_id = 3, correctAnswer = 1\<rparr>,
     \<lparr>question_id = 4, correctAnswer = 2\<rparr>,
     \<lparr>question_id = 5, correctAnswer = 3\<rparr>]"

definition initial :: server where
  "initial =
    \<lparr>gameState = \<lparr>state = LOBBY, currentQuestionIndex = 0, questions = QUESTIONS,
                   players = [], timer = 0\<rparr>,
     playerFirstAnswers = Map.empty, timerInterval = None, sent = []\<rparr>"

section \<open>Operations (src/server.ts)\<close>

definition setPlayers :: "((string \<times> Player) list \<Rightarrow> (string \<times> Player) list) \<Rightarrow> server \<Rightarrow> server" where
  "setPlayers f s = s\<lparr>gameState := (gameState s)\<lparr>players := f (players (gameState s))\<rparr>\<rparr>"

definition setState :: "GameState \<Rightarrow> server \<Rightarrow> server" where
  "setState st s = s\<lparr>gameState := (gameState s)\<lparr>state := st\<rparr>\<rparr>"

definition setIndex :: "nat \<Rightarrow> server \<Rightarrow> server" where
  "setIndex i s = s\<lparr>gameState := (gameState s)\<lparr>currentQuestionIndex := i\<rparr>\<rparr>"

definition forEachPlayer :: "(Player \<Rightarrow> Player) \<Rightarrow> server \<Rightarrow> server" where
  \<comment> \<open>\<open>Object.values(gameState.players).forEach(p => ...)\<close> with a body that writes fields of \<open>p\<close>\<close>
  "forEachPlayer f s = setPlayers (map (\<lambda>(k, p). (k, f p))) s"

definition broadcastUpdate :: "server \<Rightarrow> server" where
  "broadcastUpdate s = s\<lparr>sent := sent s @ [GameUpdate (gameState s)]\<rparr>"

definition clearInterval :: "server \<Rightarrow> server" where
  "clearInterval s = s\<lparr>timerInterval := None\<rparr>"

definition startTimer :: "int \<Rightarrow> callback \<Rightarrow> server \<Rightarrow> server" where
  "startTimer duration onComplete s =
    (let s1 = (if timerInterval s \<noteq> None then clearInterval s else s);
         s2 = s1\<lparr>gameState := (gameState s1)\<lparr>timer := duration\<rparr>\<rparr>;
         s3 = broadcastUpdate s2
     in s3\<lparr>timerInterval := Some onComplete\<rparr>)"

subsection \<open>calculateScores\<close>

definition answerKey :: "Player \<Rightarrow> enat" where
  \<comment> \<open>\<open>a.answerTime || Infinity\<close>: \<open>null\<close> and \<open>0\<close> are falsy\<close>
  "answerKey p = (case answerTime p of None \<Rightarrow> \<infinity> | Some t \<Rightarrow> if t = 0 then \<infinity> else enat t)"

definition scoringOrder :: "server \<Rightarrow> (string \<times> Player) list" where
  \<comment> \<open>\<open>Object.values(players).filter(p => !p.isHost).sort((a, b) => key a - key b)\<close>. The
      comparator is negative, positive or zero as the keys compare (\<open>Infinity - Infinity\<close>
      is \<open>NaN\<close>, which \<open>sort\<close> reads as 0), and \<open>Array.prototype.sort\<close> is stable, as
      \<open>sort_key\<close> is. Each player object is kept with the key it is stored under.\<close>
  "scoringOrder s =
     sort_key (\<lambda>kp. answerKey (snd kp)) (filter (\<lambda>kp. \<not> isHost (snd kp)) (players (gameState s)))"

definition award :: "Question \<Rightarrow> (string \<rightharpoonup> int) \<Rightarrow> int \<Rightarrow> nat \<Rightarrow> Player \<Rightarrow> bool \<times> int \<times> reason \<times> nat" where
  \<comment> \<open>the body of the \<open>forEach\<close> callback up to the writes: \<open>(isCorrect, points, reason, correctCount)\<close>\<close>
  "award currentQuestion firstAnswers tm correctCount player =
    (let isCorrect = (currentAnswer player = Some (correctAnswer currentQuestion)) in
     if isCorrect then
       (let firstAnswer = firstAnswers (player_id player);
            wasFirstCorrect = (firstAnswer = Some (correctAnswer currentQuestion)) in
        if \<not> hasChangedAnswer player \<and> wasFirstCorrect then
          (if correctCount < 5 then (isCorrect, 20, FirstFiveUnchanged, correctCount + 1)
           else (isCorrect, 10, CorrectUnchanged, correctCount + 1))
        else if hasChangedAnswer player then
          (if tm \<le> 3 then (isCorrect, 5, ChangedFinalThree, correctCount)
           else (isCorrect, 10, ChangedCorrect, correctCount))
        else (isCorrect, 10, CorrectPlain, correctCount))
     else (isCorrect, 0, Incorrect, correctCount))"

fun scoreEach :: "Question \<Rightarrow> (string \<times> Player) list \<Rightarrow> nat \<Rightarrow> server \<Rightarrow> server" where
  "scoreEach currentQuestion [] correctCount s = s"
| "scoreEach currentQuestion ((k, player) # rest) correctCount s =
    (case award currentQuestion (playerFirstAnswers s) (timer (gameState s)) correctCount player of
       (isCorrect, points, reason, correctCount') \<Rightarrow>
         (let s1 = setPlayers (AList.map_entry k
                      (\<lambda>p. p\<lparr>lastScoreChange := points, score := score p + points\<rparr>)) s;
              s2 = s1\<lparr>sent := sent s1 @ [AnswerFeedback (player_id player) isCorrect points reason]\<rparr>
          in scoreEach currentQuestion rest correctCount' s2))"

definition calculateScores :: "server \<Rightarrow> error + server" where
  \<comment> \<open>\<open>QUESTIONS[i]\<close> out of range is \<open>undefined\<close>; reading \<open>.correctAnswer\<close> of it throws,
      at the first player the loop visits\<close>
  "calculateScores s =
    (let i = currentQuestionIndex (gameState s);
         ps = scoringOrder s in
     if i < length QUESTIONS then Inr (scoreEach (QUESTIONS ! i) ps 0 s)
     else if ps = [] then Inr s
     else Inl TypeError)"

subsection \<open>Phase controller and timer\<close>

definition startReadingPhase :: "server \<Rightarrow> server" where
  "startReadingPhase s =
    (let s1 = setState READING s;
         s2 = forEachPlayer
                (\<lambda>p. p\<lparr>currentAnswer := None, hasChangedAnswer := False, lastScoreChange := 0\<rparr>) s1;
         s3 = s2\<lparr>playerFirstAnswers := Map.empty\<rparr>
     in startTimer 5 ToQuestion s3)"

fun onComplete :: "callback \<Rightarrow> server \<Rightarrow> error + server" where
  "onComplete ToQuestion s = Inr (startTimer 15 ToReveal (setState QUESTION s))"
| "onComplete ToReveal s =
    (case calculateScores s of
       Inl e \<Rightarrow> Inl e
     | Inr s1 \<Rightarrow> Inr (startTimer 5 ToLeaderboard (broadcastUpdate (setState REVEAL s1))))"
| "onComplete ToLeaderboard s = Inr (broadcastUpdate (setState LEADERBOARD s))"

definition tick :: "server \<Rightarrow> error + server" where
  \<comment> \<open>one firing of the \<open>setInterval\<close> callback; a stopped interval does not fire\<close>
  "tick s =
    (case timerInterval s of
       None \<Rightarrow> Inr s
     | Some cb \<Rightarrow>
         (let s1 = s\<lparr>gameState := (gameState s)\<lparr>timer := timer (gameState s) - 1\<rparr>\<rparr> in
          if timer (gameState s1) \<le> 0 then onComplete cb (clearInterval s1)
          else Inr (broadcastUpdate s1)))"

subsection \<open>Socket handlers\<close>

text \<open>The first argument of each handler is \<open>socket.id\<close> of the calling connection.\<close>

definition join :: "string \<Rightarrow> string \<Rightarrow> bool option \<Rightarrow> string option \<Rightarrow> server \<Rightarrow> server" where
  "join sid nm isHostArg av s =
    broadcastUpdate (setPlayers (AList.update sid
      \<lparr>player_id = sid, name = nm, avatar = av, score = 0, lastScoreChange = 0,
       currentAnswer = None, hasChangedAnswer = False, answerTime = None,
       isHost = (isHostArg = Some True)\<rparr>) s)"

definition submitAnswer :: "string \<Rightarrow> int \<Rightarrow> nat \<Rightarrow> server \<Rightarrow> server" where
  \<comment> \<open>\<open>now\<close> is the value \<open>Date.now()\<close> returns in the handler\<close>
  "submitAnswer sid answerIndex now s =
    (case map_of (players (gameState s)) sid of
       None \<Rightarrow> s
     | Some player \<Rightarrow>
         if state (gameState s) \<noteq> QUESTION then s
         else
           (let s1 = (if playerFirstAnswers s sid = None
                      then s\<lparr>playerFirstAnswers := (playerFirstAnswers s)(sid \<mapsto> answerIndex)\<rparr>
                      else setPlayers (AList.map_entry sid (\<lambda>p. p\<lparr>hasChangedAnswer := True\<rparr>)) s);
                s2 = setPlayers (AList.map_entry sid
                       (\<lambda>p. p\<lparr>currentAnswer := Some answerIndex, answerTime := Some now\<rparr>)) s1
            in broadcastUpdate s2))"

definition callerIsHost :: "string \<Rightarrow> server \<Rightarrow> bool" where
  \<comment> \<open>\<open>player?.isHost\<close> is truthy\<close>
  "callerIsHost sid s =
    (case map_of (players (gameState s)) sid of None \<Rightarrow> False | Some player \<Rightarrow> isHost player)"

definition hostStartGame :: "string \<Rightarrow> server \<Rightarrow> server" where
  "hostStartGame sid s =
    (if \<not> callerIsHost sid s then s
     else startReadingPhase
            (forEachPlayer (\<lambda>p. p\<lparr>score := 0, lastScoreChange := 0\<rparr>) (setIndex 0 s)))"

definition hostNextQuestion :: "string \<Rightarrow> server \<Rightarrow> server" where
  "hostNextQuestion sid s =
    (if \<not> callerIsHost sid s then s
     else if currentQuestionIndex (gameState s) < length QUESTIONS - 1
       then startReadingPhase (setIndex (currentQuestionIndex (gameState s) + 1) s)
       else broadcastUpdate (setState FINAL_RESULTS s))"

definition hostResetGame :: "string \<Rightarrow> server \<Rightarrow> server" where
  "hostResetGame sid s =
    (if \<not> callerIsHost sid s then s
     else broadcastUpdate
            (forEachPlayer
               (\<lambda>p. p\<lparr>score := 0, lastScoreChange := 0, currentAnswer := None,
                      hasChangedAnswer := False\<rparr>)
               (setIndex 0 (setState LOBBY s))))"

definition disconnect :: "string \<Rightarrow> server \<Rightarrow> server" where
  "disconnect sid s =
    broadcastUpdate
      ((setPlayers (AList.delete sid) s)\<lparr>playerFirstAnswers := (playerFirstAnswers s)(sid := None)\<rparr>)"

section \<open>Notions used in the statements\<close>

definition credit :: "int \<Rightarrow> Player \<Rightarrow> Player" where
  \<comment> \<open>the two writes of the scoring loop: \<open>lastScoreChange = points; score += points\<close>\<close>
  "credit pts p = p\<lparr>lastScoreChange := pts, score := score p + pts\<rparr>"

definition pointsOf :: "bool \<times> int \<times> reason \<times> nat \<Rightarrow> int" where
  "pointsOf a = fst (snd a)"

definition qualifies :: "Question \<Rightarrow> (string \<rightharpoonup> int) \<Rightarrow> Player \<Rightarrow> bool" where
  \<comment> \<open>the condition of the tiered branch: final answer correct, not changed, first answer correct\<close>
  "qualifies q fa p \<longleftrightarrow>
     currentAnswer p = Some (correctAnswer q) \<and> \<not> hasChangedAnswer p
     \<and> fa (player_id p) = Some (correctAnswer q)"

definition unchangedCorrect :: "server \<Rightarrow> (string \<times> Player) list" where
  \<comment> \<open>the participants of the tiered branch, in the order the scoring pass visits them\<close>
  "unchangedCorrect s =
     filter (\<lambda>kp. qualifies (QUESTIONS ! currentQuestionIndex (gameState s))
                     (playerFirstAnswers s) (snd kp))
       (scoringOrder s)"

fun eventRoom :: "event \<Rightarrow> string option" where
  \<comment> \<open>the one connection a private event is addressed to; \<open>None\<close> for a broadcast\<close>
  "eventRoom (GameUpdate g) = None"
| "eventRoom (AnswerFeedback room c pts r) = Some room"

definition examplePlayer :: "string \<Rightarrow> int option \<Rightarrow> bool \<Rightarrow> nat option \<Rightarrow> bool \<Rightarrow> Player" where
  "examplePlayer k ans changed t host =
     \<lparr>player_id = k, name = k, avatar = None, score = 0, lastScoreChange = 0,
      currentAnswer = ans, hasChangedAnswer = changed, answerTime = t, isHost = host\<rparr>"

text \<open>
  A session on question 3 (correct option 1) with a host, six players who answered 1 once,
  joined in another order than they answered, and a player who changed from 0 to 1.
\<close>

definition exampleScoring :: "int \<Rightarrow> server" where
  "exampleScoring tm =
    \<lparr>gameState = \<lparr>state = QUESTION, currentQuestionIndex = 2, questions = QUESTIONS,
        players =
          [(''h'', examplePlayer ''h'' None False None True),
           (''p1'', examplePlayer ''p1'' (Some 1) False (Some 1006) False),
           (''p2'', examplePlayer ''p2'' (Some 1) False (Some 1001) False),
           (''p3'', examplePlayer ''p3'' (Some 1) False (Some 1002) False),
           (''p4'', examplePlayer ''p4'' (Some 1) False (Some 1003) False),
           (''p5'', examplePlayer ''p5'' (Some 1) False (Some 1004) False),
           (''p6'', examplePlayer ''p6'' (Some 1) False (Some 1005) False),
           (''p7'', examplePlayer ''p7'' (Some 1) True (Some 1007) False)],
        timer = tm\<rparr>,
     playerFirstAnswers = [''p1'' \<mapsto> 1, ''p2'' \<mapsto> 1, ''p3'' \<mapsto> 1, ''p4'' \<mapsto> 1,
                           ''p5'' \<mapsto> 1, ''p6'' \<mapsto> 1, ''p7'' \<mapsto> 0],
     timerInterval = None, sent = []\<rparr>"

text \<open>A session with a host and one player who answered option 0 at time 1000.\<close>

definition exampleSession :: "GameState \<Rightarrow> nat \<Rightarrow> server" where
  "exampleSession st i =
    \<lparr>gameState = \<lparr>state = st, currentQuestionIndex = i, questions = QUESTIONS,
        players =
          [(''h'', examplePlayer ''h'' None False None True),
           (''p1'', (examplePlayer ''p1'' (Some 0) False (Some 1000) False)
                      \<lparr>score := 20, lastScoreChange := 20\<rparr>)],
        timer = 0\<rparr>,
     playerFirstAnswers = [''p1'' \<mapsto> 0],
     timerInterval = None, sent = []\<rparr>"

text \<open>
  What holds of every state the server reaches: a key occurs once in \<open>players\<close> (it is an
  object), a record is stored under its own \<open>id\<close>, and the question index is in the bank.
\<close>

definition wellFormed :: "server \<Rightarrow> bool" where
  "wellFormed s \<longleftrightarrow>
     distinct (map fst (players (gameState s)))
     \<and> list_all (\<lambda>kp. player_id (snd kp) = fst kp) (players (gameState s))
     \<and> currentQuestionIndex (gameState s) < length QUESTIONS"

text \<open>An answering phase on question 3 in which nobody has answered yet.\<close>

definition exampleAnswering :: server where
  "exampleAnswering =
    \<lparr>gameState = \<lparr>state = QUESTION, currentQuestionIndex = 2, questions = QUESTIONS,
        players =
          [(''h'', examplePlayer ''h'' None False None True),
           (''p1'', examplePlayer ''p1'' None False None False)],
        timer = 9\<rparr>,
     playerFirstAnswers = Map.empty,
     timerInterval = Some ToReveal, sent = []\<rparr>"

definition playersOk :: "(string \<times> Player) list \<Rightarrow> bool" where
  "playersOk ps \<longleftrightarrow>
     distinct (map fst ps) \<and> list_all (\<lambda>kp. player_id (snd kp) = fst kp) ps"

text \<open>
  The states of a run: the server starts in \<open>initial\<close>, and each step is one socket event
  or one firing of the interval (which ends the run when the scoring pass throws).
\<close>

inductive reachable :: "server \<Rightarrow> bool" where
  r_initial: "reachable initial"
| r_join: "reachable s \<Longrightarrow> reachable (join sid nm h av s)"
| r_submitAnswer: "reachable s \<Longrightarrow> reachable (submitAnswer sid a t s)"
| r_hostStartGame: "reachable s \<Longrightarrow> reachable (hostStartGame sid s)"
| r_hostNextQuestion: "reachable s \<Longrightarrow> reachable (hostNextQuestion sid s)"
| r_hostResetGame: "reachable s \<Longrightarrow> reachable (hostResetGame sid s)"
| r_disconnect: "reachable s \<Longrightarrow> reachable (disconnect sid s)"
| r_tick: "reachable s \<Longrightarrow> tick s = Inr s' \<Longrightarrow> reachable s'"

section \<open>The scoring loop\<close>

lemmas handler_defs = setPlayers_def setState_def setIndex_def forEachPlayer_def
  broadcastUpdate_def clearInterval_def startTimer_def

lemma award_count:
  "snd (snd (snd (award q fa tm cc p))) = (if qualifies q fa p then cc + 1 else cc)"
  by (simp add: award_def qualifies_def Let_def)

lemma award_changed_correct:
  "hasChangedAnswer p \<Longrightarrow> currentAnswer p = Some (correctAnswer q) \<Longrightarrow>
   award q fa tm cc p =
     (if tm \<le> 3 then (True, 5, ChangedFinalThree, cc) else (True, 10, ChangedCorrect, cc))"
  by (simp add: award_def)

lemma award_qualifies:
  "qualifies q fa p \<Longrightarrow>
   award q fa tm cc p =
     (if cc < 5 then (True, 20, FirstFiveUnchanged, cc + 1)
      else (True, 10, CorrectUnchanged, cc + 1))"
  by (simp add: award_def qualifies_def)

lemma map_entry_keys: "map fst (AList.map_entry k f xs) = map fst xs"
  by (induction xs) auto

text \<open>The loop writes players only: everything else of the server is as before.\<close>

lemma scoreEach_frame:
  "playerFirstAnswers (scoreEach q ps cc s) = playerFirstAnswers s
   \<and> timer (gameState (scoreEach q ps cc s)) = timer (gameState s)
   \<and> state (gameState (scoreEach q ps cc s)) = state (gameState s)
   \<and> currentQuestionIndex (gameState (scoreEach q ps cc s)) = currentQuestionIndex (gameState s)
   \<and> questions (gameState (scoreEach q ps cc s)) = questions (gameState s)
   \<and> timerInterval (scoreEach q ps cc s) = timerInterval s"
  by (induction q ps cc s rule: scoreEach.induct)
     (auto simp: setPlayers_def Let_def split: prod.splits)

lemma scoreEach_keys:
  "map fst (players (gameState (scoreEach q ps cc s))) = map fst (players (gameState s))"
  by (induction q ps cc s rule: scoreEach.induct)
     (auto simp: setPlayers_def Let_def map_entry_keys split: prod.splits)

lemma scoreEach_other:
  "k \<notin> fst ` set ps \<Longrightarrow>
   map_of (players (gameState (scoreEach q ps cc s))) k = map_of (players (gameState s)) k"
  by (induction q ps cc s rule: scoreEach.induct)
     (auto simp: setPlayers_def Let_def map_of_map_entry split: prod.splits)

text \<open>
  The player visited after \<open>pre\<close> is credited what \<open>award\<close> gives at the count the loop
  has reached there: the start value plus the tiered participants among \<open>pre\<close>.
\<close>

lemma scoreEach_at:
  "distinct (map fst (pre @ (k, p) # post)) \<Longrightarrow>
   map_of (players (gameState (scoreEach q (pre @ (k, p) # post) cc s))) k =
     map_option
       (credit (pointsOf (award q (playerFirstAnswers s) (timer (gameState s))
                  (cc + length (filter (\<lambda>kp. qualifies q (playerFirstAnswers s) (snd kp)) pre)) p)))
       (map_of (players (gameState s)) k)"
proof (induction pre arbitrary: cc s)
  case Nil
  then have "k \<notin> fst ` set post" by auto
  then show ?case
    by (auto simp: scoreEach_other setPlayers_def Let_def map_of_map_entry credit_def pointsOf_def
        split: prod.splits option.splits)
next
  case (Cons a pre)
  obtain k' p' where a: "a = (k', p')" by (cases a)
  obtain c pts r cc' where aw:
    "award q (playerFirstAnswers s) (timer (gameState s)) cc p' = (c, pts, r, cc')"
    by (metis prod_cases4)
  have cc': "cc' = (if qualifies q (playerFirstAnswers s) p' then cc + 1 else cc)"
    using award_count[of q "playerFirstAnswers s" "timer (gameState s)" cc p'] aw by simp
  have ne: "k' \<noteq> k" using Cons.prems a by auto
  have d: "distinct (map fst (pre @ (k, p) # post))" using Cons.prems by simp
  show ?case
    using Cons.IH[OF d] ne
    by (simp add: a aw cc' setPlayers_def Let_def map_of_map_entry)
qed

text \<open>The loop emits one private event per visited player, in order, and no broadcast.\<close>

lemma scoreEach_sent:
  "\<exists>evs. sent (scoreEach q ps cc s) = sent s @ evs
     \<and> map eventRoom evs = map (\<lambda>kp. Some (player_id (snd kp))) ps"
proof (induction ps arbitrary: cc s)
  case Nil
  then show ?case by simp
next
  case (Cons a ps)
  obtain k p where a: "a = (k, p)" by (cases a)
  obtain c pts r cc' where aw:
    "award q (playerFirstAnswers s) (timer (gameState s)) cc p = (c, pts, r, cc')"
    by (metis prod_cases4)
  define s2 where "s2 = (setPlayers (AList.map_entry k
       (\<lambda>p. p\<lparr>lastScoreChange := pts, score := score p + pts\<rparr>)) s)
       \<lparr>sent := sent s @ [AnswerFeedback (player_id p) c pts r]\<rparr>"
  have step: "scoreEach q (a # ps) cc s = scoreEach q ps cc' s2"
    by (simp add: a aw s2_def Let_def setPlayers_def)
  from Cons.IH[of cc' s2] obtain evs where
    evs: "sent (scoreEach q ps cc' s2) = sent s2 @ evs"
         "map eventRoom evs = map (\<lambda>kp. Some (player_id (snd kp))) ps" by blast
  have "sent (scoreEach q (a # ps) cc s) = sent s @ (AnswerFeedback (player_id p) c pts r # evs)"
    using evs(1) by (simp add: step s2_def)
  moreover have "map eventRoom (AnswerFeedback (player_id p) c pts r # evs)
      = map (\<lambda>kp. Some (player_id (snd kp))) (a # ps)"
    using evs(2) by (simp add: a)
  ultimately show ?case by blast
qed

lemma scoreEach_event_at:
  "sent (scoreEach q (pre @ (k, p) # post) cc s) ! (length (sent s) + length pre) =
     (case award q (playerFirstAnswers s) (timer (gameState s))
             (cc + length (filter (\<lambda>kp. qualifies q (playerFirstAnswers s) (snd kp)) pre)) p of
        (c, pts, r, n) \<Rightarrow> AnswerFeedback (player_id p) c pts r)"
proof (induction pre arbitrary: cc s)
  case Nil
  obtain c pts r cc' where aw:
    "award q (playerFirstAnswers s) (timer (gameState s)) cc p = (c, pts, r, cc')"
    by (metis prod_cases4)
  define s2 where "s2 = (setPlayers (AList.map_entry k
       (\<lambda>p. p\<lparr>lastScoreChange := pts, score := score p + pts\<rparr>)) s)
       \<lparr>sent := sent s @ [AnswerFeedback (player_id p) c pts r]\<rparr>"
  have step: "scoreEach q ((k, p) # post) cc s = scoreEach q post cc' s2"
    by (simp add: aw s2_def Let_def setPlayers_def)
  obtain evs where "sent (scoreEach q post cc' s2) = sent s2 @ evs"
    using scoreEach_sent by blast
  then have "sent (scoreEach q ((k, p) # post) cc s)
      = sent s @ AnswerFeedback (player_id p) c pts r # evs"
    by (simp add: step s2_def del: scoreEach.simps)
  then show ?case by (simp add: aw del: scoreEach.simps)
next
  case (Cons a pre)
  obtain k' p' where a: "a = (k', p')" by (cases a)
  obtain c pts r cc' where aw:
    "award q (playerFirstAnswers s) (timer (gameState s)) cc p' = (c, pts, r, cc')"
    by (metis prod_cases4)
  have cc': "cc' = (if qualifies q (playerFirstAnswers s) p' then cc + 1 else cc)"
    using award_count[of q "playerFirstAnswers s" "timer (gameState s)" cc p'] aw by simp
  define s2 where "s2 = (setPlayers (AList.map_entry k'
       (\<lambda>p. p\<lparr>lastScoreChange := pts, score := score p + pts\<rparr>)) s)
       \<lparr>sent := sent s @ [AnswerFeedback (player_id p') c pts r]\<rparr>"
  have step: "scoreEach q ((k', p') # pre @ (k, p) # post) cc s
      = scoreEach q (pre @ (k, p) # post) cc' s2"
    by (simp add: aw s2_def Let_def setPlayers_def)
  have s2: "playerFirstAnswers s2 = playerFirstAnswers s"
    "timer (gameState s2) = timer (gameState s)"
    "length (sent s2) = Suc (length (sent s))"
    by (simp_all add: s2_def setPlayers_def)
  show ?case
    using Cons.IH[of cc' s2] by (simp add: step s2 a cc' del: scoreEach.simps)
qed

section \<open>The scoring pass\<close>

lemma set_scoringOrder:
  "set (scoringOrder s) = {kp \<in> set (players (gameState s)). \<not> isHost (snd kp)}"
  by (auto simp: scoringOrder_def)

lemma distinct_scoringOrder:
  assumes "distinct (map fst (players (gameState s)))"
  shows "distinct (map fst (scoringOrder s))"
proof -
  have "distinct (map fst (filter (\<lambda>kp. \<not> isHost (snd kp)) (players (gameState s))))"
    using assms by (rule distinct_map_filter)
  then show ?thesis
    by (simp add: scoringOrder_def distinct_map)
qed

lemma sorted_scoringOrder:
  "sorted (map (\<lambda>kp. answerKey (snd kp)) (scoringOrder s))"
  by (simp add: scoringOrder_def)

lemma answerKey_simps:
  "answerTime p = None \<Longrightarrow> answerKey p = \<infinity>"
  "answerTime p = Some t \<Longrightarrow> 0 < t \<Longrightarrow> answerKey p = enat t"
  by (simp_all add: answerKey_def)

lemma filter_nth_split:
  "j < length (filter P xs) \<Longrightarrow>
   \<exists>pre post. xs = pre @ (filter P xs ! j) # post \<and> length (filter P pre) = j"
proof (induction xs arbitrary: j)
  case Nil
  then show ?case by simp
next
  case (Cons x xs)
  show ?case
  proof (cases "P x")
    case False
    with Cons.prems have "j < length (filter P xs)" by simp
    from Cons.IH[OF this] obtain pre post where
      "xs = pre @ (filter P xs ! j) # post" "length (filter P pre) = j" by blast
    with False have "x # xs = (x # pre) @ (filter P (x # xs) ! j) # post
        \<and> length (filter P (x # pre)) = j"
      by simp
    then show ?thesis by blast
  next
    case True
    show ?thesis
    proof (cases j)
      case 0
      with True have "x # xs = [] @ (filter P (x # xs) ! j) # xs \<and> length (filter P []) = j"
        by simp
      then show ?thesis by blast
    next
      case (Suc j')
      with Cons.prems True have "j' < length (filter P xs)" by simp
      from Cons.IH[OF this] obtain pre post where
        "xs = pre @ (filter P xs ! j') # post" "length (filter P pre) = j'" by blast
      with True Suc have "x # xs = (x # pre) @ (filter P (x # xs) ! j) # post
          \<and> length (filter P (x # pre)) = j"
        by simp
      then show ?thesis by blast
    qed
  qed
qed

text \<open>
  What one scoring pass does to the participant it visits after \<open>pre\<close>: the pass returns,
  the participant is credited the award computed at the count of tiered participants in
  \<open>pre\<close>, and the feedback event with that award is among the events the pass emits.
\<close>

lemma calculateScores_entry:
  assumes d: "distinct (map fst (players (gameState s)))"
    and i: "currentQuestionIndex (gameState s) < length QUESTIONS"
    and ord: "scoringOrder s = pre @ (k, p) # post"
    and a: "a = award (QUESTIONS ! currentQuestionIndex (gameState s)) (playerFirstAnswers s)
                  (timer (gameState s))
                  (length (filter (\<lambda>kp. qualifies (QUESTIONS ! currentQuestionIndex (gameState s))
                                           (playerFirstAnswers s) (snd kp)) pre)) p"
  shows "\<exists>s' evs. calculateScores s = Inr s'
     \<and> map_of (players (gameState s')) k = Some (credit (pointsOf a) p)
     \<and> sent s' = sent s @ evs
     \<and> evs ! length pre = AnswerFeedback (player_id p) (fst a) (pointsOf a) (fst (snd (snd a)))
     \<and> length pre < length evs"
proof -
  let ?q = "QUESTIONS ! currentQuestionIndex (gameState s)"
  let ?s' = "scoreEach ?q (scoringOrder s) 0 s"
  have cs: "calculateScores s = Inr ?s'" using i by (simp add: calculateScores_def Let_def)
  have "(k, p) \<in> set (scoringOrder s)" using ord by simp
  then have "(k, p) \<in> set (players (gameState s))" by (simp add: set_scoringOrder)
  then have look: "map_of (players (gameState s)) k = Some p" using d by simp
  have dd: "distinct (map fst (pre @ (k, p) # post))"
    using distinct_scoringOrder[OF d] ord by simp
  have 1: "map_of (players (gameState ?s')) k = Some (credit (pointsOf a) p)"
    using scoreEach_at[OF dd, of ?q 0 s] look by (simp add: ord a)
  obtain evs where evs: "sent ?s' = sent s @ evs"
     "map eventRoom evs = map (\<lambda>kp. Some (player_id (snd kp))) (scoringOrder s)"
    using scoreEach_sent by blast
  have len: "length evs = length (scoringOrder s)"
    using evs(2) by (metis length_map)
  have 2: "length pre < length evs" by (simp add: len ord)
  have "sent ?s' ! (length (sent s) + length pre) = evs ! length pre"
    by (simp add: evs(1) nth_append)
  then have 3: "evs ! length pre
      = AnswerFeedback (player_id p) (fst a) (pointsOf a) (fst (snd (snd a)))"
    using scoreEach_event_at[of ?q pre k p post 0 s]
    by (simp add: ord a pointsOf_def split: prod.splits)
  show ?thesis using cs 1 evs(1) 2 3 by blast
qed

lemma calculateScores_changed_correct:
  assumes d: "distinct (map fst (players (gameState s)))"
    and i: "currentQuestionIndex (gameState s) < length QUESTIONS"
    and look: "map_of (players (gameState s)) k = Some p"
    and nh: "\<not> isHost p"
    and ch: "hasChangedAnswer p"
    and co: "currentAnswer p = Some (correctAnswer (QUESTIONS ! currentQuestionIndex (gameState s)))"
  shows "\<exists>s' evs. calculateScores s = Inr s' \<and> sent s' = sent s @ evs \<and>
     (if 3 < timer (gameState s)
      then map_of (players (gameState s')) k = Some (credit 10 p)
           \<and> AnswerFeedback (player_id p) True 10 ChangedCorrect \<in> set evs
      else map_of (players (gameState s')) k = Some (credit 5 p)
           \<and> AnswerFeedback (player_id p) True 5 ChangedFinalThree \<in> set evs)"
proof -
  let ?q = "QUESTIONS ! currentQuestionIndex (gameState s)"
  have "(k, p) \<in> set (scoringOrder s)"
    using look nh by (auto simp: set_scoringOrder dest: map_of_SomeD)
  then obtain pre post where ord: "scoringOrder s = pre @ (k, p) # post"
    by (auto dest: split_list)
  define a where "a = award ?q (playerFirstAnswers s) (timer (gameState s))
     (length (filter (\<lambda>kp. qualifies ?q (playerFirstAnswers s) (snd kp)) pre)) p"
  from calculateScores_entry[OF d i ord a_def] obtain s' evs where
    r: "calculateScores s = Inr s'"
       "map_of (players (gameState s')) k = Some (credit (pointsOf a) p)"
       "sent s' = sent s @ evs"
       "evs ! length pre = AnswerFeedback (player_id p) (fst a) (pointsOf a) (fst (snd (snd a)))"
       "length pre < length evs" by blast
  have mem: "AnswerFeedback (player_id p) (fst a) (pointsOf a) (fst (snd (snd a))) \<in> set evs"
    using r(4,5) by (metis nth_mem)
  have av: "a = (if timer (gameState s) \<le> 3 then (True, 5, ChangedFinalThree, snd (snd (snd a)))
                 else (True, 10, ChangedCorrect, snd (snd (snd a))))"
    unfolding a_def using award_changed_correct[OF ch co] by simp
  show ?thesis
  proof (cases "3 < timer (gameState s)")
    case True
    then have "a = (True, 10, ChangedCorrect, snd (snd (snd a)))" using av by simp
    then obtain n where "a = (True, 10, ChangedCorrect, n)" by simp
    then have "pointsOf a = 10" "fst a = True" "fst (snd (snd a)) = ChangedCorrect"
      by (simp_all add: pointsOf_def)
    then show ?thesis using r(1,2,3) mem True by auto
  next
    case False
    then have "a = (True, 5, ChangedFinalThree, snd (snd (snd a)))" using av by simp
    then obtain n where "a = (True, 5, ChangedFinalThree, n)" by simp
    then have "pointsOf a = 5" "fst a = True" "fst (snd (snd a)) = ChangedFinalThree"
      by (simp_all add: pointsOf_def)
    then show ?thesis using r(1,2,3) mem False by auto
  qed
qed

lemma exampleScoring_facts:
  "distinct (map fst (players (gameState (exampleScoring tm))))"
  "currentQuestionIndex (gameState (exampleScoring tm)) < length QUESTIONS"
  "QUESTIONS ! currentQuestionIndex (gameState (exampleScoring tm)) = \<lparr>question_id = 3, correctAnswer = 1\<rparr>"
  "timer (gameState (exampleScoring tm)) = tm"
  "sent (exampleScoring tm) = []"
  by (simp_all add: exampleScoring_def QUESTIONS_def)

lemma exampleScoring_order:
  "scoringOrder (exampleScoring tm) =
     [(''p2'', examplePlayer ''p2'' (Some 1) False (Some 1001) False),
      (''p3'', examplePlayer ''p3'' (Some 1) False (Some 1002) False),
      (''p4'', examplePlayer ''p4'' (Some 1) False (Some 1003) False),
      (''p5'', examplePlayer ''p5'' (Some 1) False (Some 1004) False),
      (''p6'', examplePlayer ''p6'' (Some 1) False (Some 1005) False),
      (''p1'', examplePlayer ''p1'' (Some 1) False (Some 1006) False),
      (''p7'', examplePlayer ''p7'' (Some 1) True (Some 1007) False)]"
  by (simp add: exampleScoring_def examplePlayer_def scoringOrder_def answerKey_def)

lemma exampleScoring_unchangedCorrect:
  "unchangedCorrect (exampleScoring tm) =
     [(''p2'', examplePlayer ''p2'' (Some 1) False (Some 1001) False),
      (''p3'', examplePlayer ''p3'' (Some 1) False (Some 1002) False),
      (''p4'', examplePlayer ''p4'' (Some 1) False (Some 1003) False),
      (''p5'', examplePlayer ''p5'' (Some 1) False (Some 1004) False),
      (''p6'', examplePlayer ''p6'' (Some 1) False (Some 1005) False),
      (''p1'', examplePlayer ''p1'' (Some 1) False (Some 1006) False)]"
  unfolding unchangedCorrect_def exampleScoring_order exampleScoring_facts(3)
  by (simp add: exampleScoring_def examplePlayer_def qualifies_def)

text \<open>
  C1. In a scoring pass, a non-host participant whose changed-answer flag is set and whose
  selected option is the correct option of the current question is awarded 10 points when
  the countdown is greater than 3 at that moment and 5 points when it is at most 3: the
  award is added to the score, stored as the last score change and sent in the feedback.
\<close>

theorem changed_answer_award:
  assumes "distinct (map fst (players (gameState s)))"
    and "currentQuestionIndex (gameState s) < length QUESTIONS"
    and "map_of (players (gameState s)) k = Some p"
    and "\<not> isHost p"
    and "hasChangedAnswer p"
    and "currentAnswer p = Some (correctAnswer (QUESTIONS ! currentQuestionIndex (gameState s)))"
  shows "\<exists>s' evs. calculateScores s = Inr s' \<and> sent s' = sent s @ evs \<and>
     (if 3 < timer (gameState s)
      then map_of (players (gameState s')) k = Some (credit 10 p)
           \<and> AnswerFeedback (player_id p) True 10 ChangedCorrect \<in> set evs
      else map_of (players (gameState s')) k = Some (credit 5 p)
           \<and> AnswerFeedback (player_id p) True 5 ChangedFinalThree \<in> set evs)"
  using assms by (rule calculateScores_changed_correct)

theorem changed_answer_award_witness:
  "(\<exists>s' evs. calculateScores (exampleScoring 7) = Inr s' \<and> sent s' = evs
      \<and> map_of (players (gameState s')) ''p7''
          = Some (credit 10 (examplePlayer ''p7'' (Some 1) True (Some 1007) False))
      \<and> AnswerFeedback ''p7'' True 10 ChangedCorrect \<in> set evs)
   \<and> (\<exists>s' evs. calculateScores (exampleScoring 0) = Inr s' \<and> sent s' = evs
      \<and> map_of (players (gameState s')) ''p7''
          = Some (credit 5 (examplePlayer ''p7'' (Some 1) True (Some 1007) False))
      \<and> AnswerFeedback ''p7'' True 5 ChangedFinalThree \<in> set evs)"
proof -
  let ?p = "examplePlayer ''p7'' (Some 1) True (Some 1007) False"
  have look: "map_of (players (gameState (exampleScoring tm))) ''p7'' = Some ?p" for tm
    by (simp add: exampleScoring_def)
  have p: "\<not> isHost ?p" "hasChangedAnswer ?p" "player_id ?p = ''p7''"
    "currentAnswer ?p
       = Some (correctAnswer (QUESTIONS ! currentQuestionIndex (gameState (exampleScoring tm))))" for tm
    by (simp_all add: examplePlayer_def exampleScoring_facts(3))
  show ?thesis
    using changed_answer_award[OF exampleScoring_facts(1,2) look p(1,2,4), of 7]
      changed_answer_award[OF exampleScoring_facts(1,2) look p(1,2,4), of 0]
    by (simp add: exampleScoring_facts(4,5) p(3))
qed

text \<open>
  C2. In one scoring pass, the non-host participants who did not change their answer, whose
  first recorded answer is correct and whose selected answer is correct are visited in
  ascending order of their submission time, a missing time counting as the largest:
  \<open>unchangedCorrect\<close> lists exactly these participants, sorted by \<open>answerKey\<close>. The
  first five of them are awarded 20 points each, every later one 10 points.
\<close>

theorem first_five_award:
  assumes "distinct (map fst (players (gameState s)))"
    and "currentQuestionIndex (gameState s) < length QUESTIONS"
    and "j < length (unchangedCorrect s)"
  shows "\<exists>s' evs. calculateScores s = Inr s' \<and> sent s' = sent s @ evs \<and>
     (if j < 5
      then map_of (players (gameState s')) (fst (unchangedCorrect s ! j))
             = Some (credit 20 (snd (unchangedCorrect s ! j)))
           \<and> AnswerFeedback (player_id (snd (unchangedCorrect s ! j))) True 20 FirstFiveUnchanged
               \<in> set evs
      else map_of (players (gameState s')) (fst (unchangedCorrect s ! j))
             = Some (credit 10 (snd (unchangedCorrect s ! j)))
           \<and> AnswerFeedback (player_id (snd (unchangedCorrect s ! j))) True 10 CorrectUnchanged
               \<in> set evs)
     \<and> sorted (map (\<lambda>kp. answerKey (snd kp)) (unchangedCorrect s))
     \<and> set (unchangedCorrect s) =
          {kp \<in> set (players (gameState s)). \<not> isHost (snd kp)
             \<and> qualifies (QUESTIONS ! currentQuestionIndex (gameState s))
                   (playerFirstAnswers s) (snd kp)}"
proof -
  let ?q = "QUESTIONS ! currentQuestionIndex (gameState s)"
  let ?P = "\<lambda>kp. qualifies ?q (playerFirstAnswers s) (snd kp)"
  let ?kp = "unchangedCorrect s ! j"
  have uc: "unchangedCorrect s = filter ?P (scoringOrder s)"
    by (simp add: unchangedCorrect_def)
  obtain k p where kp: "?kp = (k, p)" by (cases ?kp)
  have j: "j < length (filter ?P (scoringOrder s))" using assms(3) by (simp add: uc)
  from filter_nth_split[OF j] obtain pre post where
    ord: "scoringOrder s = pre @ (k, p) # post" and n: "length (filter ?P pre) = j"
    using kp uc by auto
  have "?kp \<in> set (filter ?P (scoringOrder s))" unfolding uc using j by (rule nth_mem)
  then have qual: "qualifies ?q (playerFirstAnswers s) p" using kp by simp
  define a where "a = award ?q (playerFirstAnswers s) (timer (gameState s))
     (length (filter ?P pre)) p"
  from calculateScores_entry[OF assms(1,2) ord a_def] obtain s' evs where
    r: "calculateScores s = Inr s'"
       "map_of (players (gameState s')) k = Some (credit (pointsOf a) p)"
       "sent s' = sent s @ evs"
       "evs ! length pre = AnswerFeedback (player_id p) (fst a) (pointsOf a) (fst (snd (snd a)))"
       "length pre < length evs" by blast
  have mem: "AnswerFeedback (player_id p) (fst a) (pointsOf a) (fst (snd (snd a))) \<in> set evs"
    using r(4,5) by (metis nth_mem)
  have av: "a = (if j < 5 then (True, 20, FirstFiveUnchanged, j + 1)
                 else (True, 10, CorrectUnchanged, j + 1))"
    unfolding a_def n using award_qualifies[OF qual] by simp
  have main: "if j < 5
         then map_of (players (gameState s')) k = Some (credit 20 p)
              \<and> AnswerFeedback (player_id p) True 20 FirstFiveUnchanged \<in> set evs
         else map_of (players (gameState s')) k = Some (credit 10 p)
              \<and> AnswerFeedback (player_id p) True 10 CorrectUnchanged \<in> set evs"
    using r(2) mem av by (cases "j < 5") (simp_all add: pointsOf_def)
  have srt: "sorted (map (\<lambda>kp. answerKey (snd kp)) (unchangedCorrect s))"
    unfolding uc using sorted_scoringOrder[of s] by (rule sorted_filter)
  have mem': "set (unchangedCorrect s) =
      {kp \<in> set (players (gameState s)). \<not> isHost (snd kp) \<and> ?P kp}"
    by (auto simp: uc set_scoringOrder)
  show ?thesis
    using r(1,3) main kp srt mem' by auto
qed

theorem first_five_award_witness:
  "length (unchangedCorrect (exampleScoring 0)) = 6
   \<and> (\<exists>s'. calculateScores (exampleScoring 0) = Inr s'
        \<and> map_of (players (gameState s')) ''p6''
            = Some (credit 20 (examplePlayer ''p6'' (Some 1) False (Some 1005) False))
        \<and> AnswerFeedback ''p6'' True 20 FirstFiveUnchanged \<in> set (sent s'))
   \<and> (\<exists>s'. calculateScores (exampleScoring 0) = Inr s'
        \<and> map_of (players (gameState s')) ''p1''
            = Some (credit 10 (examplePlayer ''p1'' (Some 1) False (Some 1006) False))
        \<and> AnswerFeedback ''p1'' True 10 CorrectUnchanged \<in> set (sent s'))"
proof -
  let ?s = "exampleScoring 0"
  have len: "length (unchangedCorrect ?s) = 6"
    by (simp add: exampleScoring_unchangedCorrect)
  have j4: "4 < length (unchangedCorrect ?s)" and j5: "5 < length (unchangedCorrect ?s)"
    by (simp_all add: len)
  have e4: "unchangedCorrect ?s ! 4 = (''p6'', examplePlayer ''p6'' (Some 1) False (Some 1005) False)"
    and e5: "unchangedCorrect ?s ! 5 = (''p1'', examplePlayer ''p1'' (Some 1) False (Some 1006) False)"
    by (simp_all add: exampleScoring_unchangedCorrect)
  have id: "player_id (examplePlayer k a c t h) = k" for k a c t h
    by (simp add: examplePlayer_def)
  have "\<exists>s'. calculateScores ?s = Inr s'
        \<and> map_of (players (gameState s')) ''p6''
            = Some (credit 20 (examplePlayer ''p6'' (Some 1) False (Some 1005) False))
        \<and> AnswerFeedback ''p6'' True 20 FirstFiveUnchanged \<in> set (sent s')"
    using first_five_award[OF exampleScoring_facts(1,2) j4]
    by (auto simp: e4 id exampleScoring_facts(5))
  moreover have "\<exists>s'. calculateScores ?s = Inr s'
        \<and> map_of (players (gameState s')) ''p1''
            = Some (credit 10 (examplePlayer ''p1'' (Some 1) False (Some 1006) False))
        \<and> AnswerFeedback ''p1'' True 10 CorrectUnchanged \<in> set (sent s')"
    using first_five_award[OF exampleScoring_facts(1,2) j5]
    by (auto simp: e5 id exampleScoring_facts(5))
  ultimately show ?thesis using len by blast
qed

text \<open>
  The countdown that the scoring pass reads. The pass runs from the interval callback of the
  answering countdown, after the decrement that brings the countdown to 0 or below: a tick
  with more than one second left only broadcasts, and the tick that scores does so at a
  countdown of at most 0, where a changed, correct answer is credited 5 points.
\<close>

lemma tick_changed_correct:
  assumes cb: "timerInterval s = Some ToReveal"
    and d: "distinct (map fst (players (gameState s)))"
    and i: "currentQuestionIndex (gameState s) < length QUESTIONS"
    and look: "map_of (players (gameState s)) k = Some p"
    and nh: "\<not> isHost p"
    and ch: "hasChangedAnswer p"
    and co: "currentAnswer p = Some (correctAnswer (QUESTIONS ! currentQuestionIndex (gameState s)))"
  shows "if 1 < timer (gameState s)
     then tick s = Inr (broadcastUpdate
                          (s\<lparr>gameState := (gameState s)\<lparr>timer := timer (gameState s) - 1\<rparr>\<rparr>))
     else \<exists>s'. tick s = Inr s' \<and> state (gameState s') = REVEAL
            \<and> map_of (players (gameState s')) k = Some (credit 5 p)"
proof (cases "1 < timer (gameState s)")
  case True
  then show ?thesis using cb by (simp add: tick_def Let_def)
next
  case False
  define s1 where
    "s1 = clearInterval (s\<lparr>gameState := (gameState s)\<lparr>timer := timer (gameState s) - 1\<rparr>\<rparr>)"
  have t: "tick s = onComplete ToReveal s1"
    using cb False by (simp add: tick_def Let_def s1_def)
  have s1: "players (gameState s1) = players (gameState s)"
    "currentQuestionIndex (gameState s1) = currentQuestionIndex (gameState s)"
    "\<not> 3 < timer (gameState s1)"
    using False by (simp_all add: s1_def clearInterval_def)
  from calculateScores_changed_correct[of s1 k p] d i look nh ch co s1
  obtain s' where s': "calculateScores s1 = Inr s'"
    "map_of (players (gameState s')) k = Some (credit 5 p)"
    by auto
  let ?r = "startTimer 5 ToLeaderboard (broadcastUpdate (setState REVEAL s'))"
  have "tick s = Inr ?r"
    by (simp add: t s'(1))
  moreover have "state (gameState ?r) = REVEAL" "players (gameState ?r) = players (gameState s')"
    by (simp_all add: handler_defs Let_def)
  ultimately show ?thesis using False s'(2) by simp
qed

lemma count_list_distinct:
  "distinct xs \<Longrightarrow> x \<in> set xs \<Longrightarrow> count_list xs x = 1"
  by (induction xs) auto

text \<open>
  C8. A scoring pass leaves every host-flagged participant as it was (score and last score
  change included) and sends the host no feedback; every non-host participant is sent
  exactly one feedback event, addressed to that participant's connection alone; and the
  pass emits nothing else.
\<close>

theorem scoring_skips_host:
  assumes wf: "wellFormed s"
  shows "\<exists>s' evs. calculateScores s = Inr s' \<and> sent s' = sent s @ evs
     \<and> (\<forall>e\<in>set evs. eventRoom e \<noteq> None)
     \<and> (\<forall>k p. map_of (players (gameState s)) k = Some p \<longrightarrow>
          (if isHost p
           then map_of (players (gameState s')) k = Some p
                \<and> count_list (map eventRoom evs) (Some k) = 0
           else count_list (map eventRoom evs) (Some k) = 1))"
proof -
  have d: "distinct (map fst (players (gameState s)))"
    and ids: "\<forall>kp\<in>set (players (gameState s)). player_id (snd kp) = fst kp"
    and i: "currentQuestionIndex (gameState s) < length QUESTIONS"
    using wf by (simp_all add: wellFormed_def list_all_iff)
  let ?q = "QUESTIONS ! currentQuestionIndex (gameState s)"
  let ?s' = "scoreEach ?q (scoringOrder s) 0 s"
  have cs: "calculateScores s = Inr ?s'" using i by (simp add: calculateScores_def Let_def)
  obtain evs where evs: "sent ?s' = sent s @ evs"
     "map eventRoom evs = map (\<lambda>kp. Some (player_id (snd kp))) (scoringOrder s)"
    using scoreEach_sent by blast
  have "map (\<lambda>kp. Some (player_id (snd kp))) (scoringOrder s)
      = map (\<lambda>kp. Some (fst kp)) (scoringOrder s)"
    using ids by (auto simp: set_scoringOrder)
  then have rooms: "map eventRoom evs = map Some (map fst (scoringOrder s))"
    using evs(2) by (simp add: comp_def)
  have "distinct (map Some (map fst (scoringOrder s)))"
    using distinct_scoringOrder[OF d] by (subst distinct_map) simp
  then have dr: "distinct (map eventRoom evs)"
    by (simp only: rooms)
  have onlyFeedback: "\<forall>e\<in>set evs. eventRoom e \<noteq> None"
  proof
    fix e assume "e \<in> set evs"
    then have "eventRoom e \<in> set (map eventRoom evs)" by simp
    then show "eventRoom e \<noteq> None" unfolding rooms by auto
  qed
  have each: "if isHost p
           then map_of (players (gameState ?s')) k = Some p
                \<and> count_list (map eventRoom evs) (Some k) = 0
           else count_list (map eventRoom evs) (Some k) = 1"
    if look: "map_of (players (gameState s)) k = Some p" for k p
  proof (cases "isHost p")
    case True
    have "k \<notin> fst ` set (scoringOrder s)"
    proof
      assume "k \<in> fst ` set (scoringOrder s)"
      then obtain p' where "(k, p') \<in> set (scoringOrder s)" by auto
      then have "(k, p') \<in> set (players (gameState s))" "\<not> isHost p'"
        by (simp_all add: set_scoringOrder)
      then have "map_of (players (gameState s)) k = Some p'" using d by simp
      with look True \<open>\<not> isHost p'\<close> show False by simp
    qed
    then have "map_of (players (gameState ?s')) k = Some p"
      and "Some k \<notin> set (map eventRoom evs)"
      using look by (auto simp: scoreEach_other rooms)
    then show ?thesis using True by simp
  next
    case False
    have "(k, p) \<in> set (scoringOrder s)"
      using look False by (auto simp: set_scoringOrder dest: map_of_SomeD)
    then have "Some k \<in> set (map eventRoom evs)" unfolding rooms by force
    then show ?thesis using False count_list_distinct[OF dr] by simp
  qed
  show ?thesis using cs evs(1) onlyFeedback each by blast
qed

theorem scoring_skips_host_witness:
  "wellFormed (exampleScoring 0)
   \<and> (\<exists>s' evs. calculateScores (exampleScoring 0) = Inr s' \<and> sent s' = evs
        \<and> map_of (players (gameState s')) ''h'' = Some (examplePlayer ''h'' None False None True)
        \<and> count_list (map eventRoom evs) (Some ''h'') = 0
        \<and> count_list (map eventRoom evs) (Some ''p1'') = 1
        \<and> count_list (map eventRoom evs) (Some ''p7'') = 1)"
proof -
  have wf: "wellFormed (exampleScoring 0)"
    by (simp add: wellFormed_def exampleScoring_def examplePlayer_def QUESTIONS_def)
  have look: "map_of (players (gameState (exampleScoring 0))) ''h'' = Some (examplePlayer ''h'' None False None True)"
    "map_of (players (gameState (exampleScoring 0))) ''p1'' = Some (examplePlayer ''p1'' (Some 1) False (Some 1006) False)"
    "map_of (players (gameState (exampleScoring 0))) ''p7'' = Some (examplePlayer ''p7'' (Some 1) True (Some 1007) False)"
    by (simp_all add: exampleScoring_def)
  have h: "isHost (examplePlayer ''h'' None False None True)"
    "\<not> isHost (examplePlayer ''p1'' (Some 1) False (Some 1006) False)"
    "\<not> isHost (examplePlayer ''p7'' (Some 1) True (Some 1007) False)"
    by (simp_all add: examplePlayer_def)
  from scoring_skips_host[OF wf] obtain s' evs where
    r: "calculateScores (exampleScoring 0) = Inr s'" "sent s' = sent (exampleScoring 0) @ evs"
      "\<forall>k p. map_of (players (gameState (exampleScoring 0))) k = Some p \<longrightarrow>
          (if isHost p
           then map_of (players (gameState s')) k = Some p
                \<and> count_list (map eventRoom evs) (Some k) = 0
           else count_list (map eventRoom evs) (Some k) = 1)"
    by blast
  from r(3) look h have "map_of (players (gameState s')) ''h'' = Some (examplePlayer ''h'' None False None True)"
        "count_list (map eventRoom evs) (Some ''h'') = 0"
        "count_list (map eventRoom evs) (Some ''p1'') = 1"
        "count_list (map eventRoom evs) (Some ''p7'') = 1"
    by metis+
  then show ?thesis using wf r(1,2) by (simp add: exampleScoring_facts(5))
qed

section \<open>Reachable states are well formed\<close>

lemma wellFormed_alt:
  "wellFormed s \<longleftrightarrow> playersOk (players (gameState s))
     \<and> currentQuestionIndex (gameState s) < length QUESTIONS"
  by (auto simp: wellFormed_def playersOk_def)

lemma playersOk_map_entry:
  "playersOk ps \<Longrightarrow> (\<And>p. player_id (f p) = player_id p) \<Longrightarrow> playersOk (AList.map_entry k f ps)"
  unfolding playersOk_def by (induction ps) (auto simp: map_entry_keys)

lemma playersOk_map:
  "playersOk ps \<Longrightarrow> (\<And>p. player_id (f p) = player_id p) \<Longrightarrow> playersOk (map (\<lambda>(k, p). (k, f p)) ps)"
  unfolding playersOk_def by (induction ps) (auto simp: rev_image_eqI)

lemma list_all_update:
  "list_all P ps \<Longrightarrow> P (k, v) \<Longrightarrow> list_all P (AList.update k v ps)"
  by (induction ps) auto

lemma playersOk_update:
  "playersOk ps \<Longrightarrow> player_id v = k \<Longrightarrow> playersOk (AList.update k v ps)"
  by (simp add: playersOk_def distinct_update list_all_update)

lemma playersOk_delete:
  "playersOk ps \<Longrightarrow> playersOk (AList.delete k ps)"
  unfolding playersOk_def by (induction ps) (auto simp: distinct_delete delete_keys)

lemma scoreEach_playersOk:
  "playersOk (players (gameState s)) \<Longrightarrow> playersOk (players (gameState (scoreEach q ps cc s)))"
proof (induction q ps cc s rule: scoreEach.induct)
  case (2 q k player rest cc s)
  then show ?case
    by (auto simp: setPlayers_def Let_def playersOk_map_entry split: prod.splits)
qed simp

lemma wellFormed_startReadingPhase: "wellFormed s \<Longrightarrow> wellFormed (startReadingPhase s)"
  by (simp add: wellFormed_alt startReadingPhase_def handler_defs Let_def playersOk_map)

lemma wellFormed_calculateScores:
  "wellFormed s \<Longrightarrow> calculateScores s = Inr s' \<Longrightarrow> wellFormed s'"
  by (auto simp: wellFormed_alt calculateScores_def Let_def scoreEach_playersOk scoreEach_frame
      split: if_splits)

lemma wellFormed_tick: "wellFormed s \<Longrightarrow> tick s = Inr s' \<Longrightarrow> wellFormed s'"
proof -
  assume wf: "wellFormed s" and t: "tick s = Inr s'"
  show ?thesis
  proof (cases "timerInterval s")
    case None
    then show ?thesis using wf t by (simp add: tick_def)
  next
    case (Some cb)
    define s1 where "s1 = s\<lparr>gameState := (gameState s)\<lparr>timer := timer (gameState s) - 1\<rparr>\<rparr>"
    have wf1: "wellFormed s1" "wellFormed (clearInterval s1)"
      using wf by (simp_all add: wellFormed_def s1_def clearInterval_def)
    show ?thesis
    proof (cases "timer (gameState s1) \<le> 0")
      case False
      then have "s' = broadcastUpdate s1" using t Some by (simp add: tick_def Let_def s1_def)
      then show ?thesis using wf1 by (simp add: wellFormed_def broadcastUpdate_def)
    next
      case True
      then have oc: "onComplete cb (clearInterval s1) = Inr s'"
        using t Some by (simp add: tick_def Let_def s1_def)
      show ?thesis
      proof (cases cb)
        case ToQuestion
        then show ?thesis using oc wf1(2) by (auto simp: wellFormed_def handler_defs Let_def)
      next
        case ToReveal
        then obtain s2 where s2: "calculateScores (clearInterval s1) = Inr s2"
          "s' = startTimer 5 ToLeaderboard (broadcastUpdate (setState REVEAL s2))"
          using oc by (auto split: sum.splits)
        have "wellFormed s2" using wellFormed_calculateScores[OF wf1(2) s2(1)] .
        then show ?thesis by (simp add: s2(2) wellFormed_def handler_defs Let_def)
      next
        case ToLeaderboard
        then show ?thesis using oc wf1(2) by (auto simp: wellFormed_def handler_defs Let_def)
      qed
    qed
  qed
qed

lemma reachable_wellFormed: "reachable s \<Longrightarrow> wellFormed s"
proof (induction rule: reachable.induct)
  case r_initial
  then show ?case by (simp add: wellFormed_def initial_def QUESTIONS_def)
next
  case (r_join s sid nm h av)
  then show ?case by (simp add: wellFormed_alt join_def handler_defs playersOk_update)
next
  case (r_submitAnswer s sid a t)
  then show ?case
    by (auto simp: wellFormed_alt submitAnswer_def handler_defs Let_def playersOk_map_entry
        split: option.splits)
next
  case (r_hostStartGame s sid)
  have "wellFormed (forEachPlayer (\<lambda>p. p\<lparr>score := 0, lastScoreChange := 0\<rparr>) (setIndex 0 s))"
    using r_hostStartGame.IH by (simp add: wellFormed_alt handler_defs playersOk_map QUESTIONS_def)
  then show ?case using r_hostStartGame.IH
    by (simp add: hostStartGame_def wellFormed_startReadingPhase)
next
  case (r_hostNextQuestion s sid)
  have "currentQuestionIndex (gameState s) < length QUESTIONS - 1 \<Longrightarrow>
     wellFormed (setIndex (currentQuestionIndex (gameState s) + 1) s)"
    using r_hostNextQuestion.IH by (simp add: wellFormed_def setIndex_def)
  moreover have "wellFormed (broadcastUpdate (setState FINAL_RESULTS s))"
    using r_hostNextQuestion.IH by (simp add: wellFormed_def handler_defs)
  ultimately show ?case using r_hostNextQuestion.IH
    by (simp add: hostNextQuestion_def wellFormed_startReadingPhase)
next
  case (r_hostResetGame s sid)
  then show ?case
    by (simp add: wellFormed_alt hostResetGame_def handler_defs playersOk_map QUESTIONS_def)
next
  case (r_disconnect s sid)
  then show ?case by (simp add: wellFormed_alt disconnect_def handler_defs playersOk_delete)
next
  case (r_tick s s')
  then show ?case using wellFormed_tick by blast
qed

section \<open>Answer submission\<close>

lemma submitAnswer_frame:
  "map fst (players (gameState (submitAnswer sid a t s))) = map fst (players (gameState s))
   \<and> timer (gameState (submitAnswer sid a t s)) = timer (gameState s)
   \<and> currentQuestionIndex (gameState (submitAnswer sid a t s)) = currentQuestionIndex (gameState s)
   \<and> state (gameState (submitAnswer sid a t s)) = state (gameState s)
   \<and> timerInterval (submitAnswer sid a t s) = timerInterval s"
  by (simp add: submitAnswer_def handler_defs Let_def map_entry_keys split: option.splits)

lemma submitAnswer_effect:
  "state (gameState s) = QUESTION \<Longrightarrow> map_of (players (gameState s)) sid = Some p \<Longrightarrow>
   map_of (players (gameState (submitAnswer sid a t s))) sid =
      Some (p\<lparr>currentAnswer := Some a, answerTime := Some t,
              hasChangedAnswer := (hasChangedAnswer p \<or> playerFirstAnswers s sid \<noteq> None)\<rparr>)
   \<and> playerFirstAnswers (submitAnswer sid a t s) =
       (if playerFirstAnswers s sid = None then (playerFirstAnswers s)(sid \<mapsto> a)
        else playerFirstAnswers s)"
  by (auto simp: submitAnswer_def handler_defs Let_def map_of_map_entry split: option.splits)

lemma submitAnswer_others:
  "k \<noteq> sid \<Longrightarrow>
   map_of (players (gameState (submitAnswer sid a t s))) k = map_of (players (gameState s)) k"
  by (auto simp: submitAnswer_def handler_defs Let_def map_of_map_entry split: option.splits)

lemma submitAnswer_sent:
  "state (gameState s) = QUESTION \<Longrightarrow> map_of (players (gameState s)) sid = Some p \<Longrightarrow>
   sent (submitAnswer sid a t s) = sent s @ [GameUpdate (gameState (submitAnswer sid a t s))]"
  by (auto simp: submitAnswer_def handler_defs Let_def split: option.splits)

text \<open>
  C7. \<open>submitAnswer\<close> changes nothing and emits nothing when the phase is not the
  answering phase (\<open>QUESTION\<close>) or the caller has no participant record. Otherwise it sets
  the caller's selected option and submission time; when no first answer was recorded it
  records the option as the first answer and leaves the changed-answer flag as it was; when
  one was recorded it keeps it and sets the flag. The other participants are as before.
\<close>

theorem submitAnswer_behaviour:
  "(state (gameState s) \<noteq> QUESTION \<or> map_of (players (gameState s)) sid = None \<longrightarrow>
      submitAnswer sid a t s = s \<and> sent (submitAnswer sid a t s) = sent s)
   \<and> (state (gameState s) = QUESTION \<and> map_of (players (gameState s)) sid = Some p \<longrightarrow>
        map_of (players (gameState (submitAnswer sid a t s))) sid =
          Some (p\<lparr>currentAnswer := Some a, answerTime := Some t,
                  hasChangedAnswer := (hasChangedAnswer p \<or> playerFirstAnswers s sid \<noteq> None)\<rparr>)
        \<and> playerFirstAnswers (submitAnswer sid a t s) =
            (if playerFirstAnswers s sid = None then (playerFirstAnswers s)(sid \<mapsto> a)
             else playerFirstAnswers s)
        \<and> (\<forall>k. k \<noteq> sid \<longrightarrow>
             map_of (players (gameState (submitAnswer sid a t s))) k = map_of (players (gameState s)) k))"
proof -
  have "submitAnswer sid a t s = s"
    if "state (gameState s) \<noteq> QUESTION \<or> map_of (players (gameState s)) sid = None"
    using that by (auto simp: submitAnswer_def split: option.splits)
  then show ?thesis
    using submitAnswer_effect[of s sid p a t] submitAnswer_others[of _ sid a t s] by auto
qed

theorem submitAnswer_behaviour_witness:
  "submitAnswer ''p1'' 2 1500 (exampleSession READING 0) = exampleSession READING 0
   \<and> submitAnswer ''zz'' 2 1500 (exampleSession QUESTION 0) = exampleSession QUESTION 0
   \<and> map_of (players (gameState (submitAnswer ''p1'' 2 1500 (exampleSession QUESTION 0)))) ''p1'' =
       Some ((examplePlayer ''p1'' (Some 2) True (Some 1500) False)\<lparr>score := 20, lastScoreChange := 20\<rparr>)
   \<and> playerFirstAnswers (submitAnswer ''p1'' 2 1500 (exampleSession QUESTION 0)) ''p1'' = Some 0
   \<and> map_of (players (gameState (submitAnswer ''h'' 2 1500 (exampleSession QUESTION 0)))) ''h'' =
       Some (examplePlayer ''h'' (Some 2) False (Some 1500) True)
   \<and> playerFirstAnswers (submitAnswer ''h'' 2 1500 (exampleSession QUESTION 0)) ''h'' = Some 2"
  using submitAnswer_behaviour[where s = "exampleSession READING 0" and sid = "''p1''" and a = 2 and t = 1500]
    submitAnswer_behaviour[where s = "exampleSession QUESTION 0" and sid = "''zz''" and a = 2 and t = 1500]
    submitAnswer_behaviour[where s = "exampleSession QUESTION 0" and sid = "''p1''" and a = 2 and t = 1500
         and p = "(examplePlayer ''p1'' (Some 0) False (Some 1000) False)\<lparr>score := 20, lastScoreChange := 20\<rparr>"]
    submitAnswer_behaviour[where s = "exampleSession QUESTION 0" and sid = "''h''" and a = 2 and t = 1500
         and p = "examplePlayer ''h'' None False None True"]
  by (simp add: exampleSession_def examplePlayer_def)

text \<open>
  C9. When a participant with no recorded first answer submits an option and then submits
  the same option again in the same answering phase, the second submission sets the
  changed-answer flag. After the first submission a correct non-host participant was in
  the unchanged tier; after the second the participant is not, and the scoring pass credits
  the changed-answer award (10 points at a countdown above 3, else 5) instead of the tier's.
\<close>

theorem resubmit_counts_as_change:
  assumes q: "state (gameState s) = QUESTION"
    and look: "map_of (players (gameState s)) sid = Some p"
    and first: "playerFirstAnswers s sid = None"
    and s1: "s1 = submitAnswer sid a t1 s"
    and s2: "s2 = submitAnswer sid a t2 s1"
    and p1: "p1 = p\<lparr>currentAnswer := Some a, answerTime := Some t1\<rparr>"
    and p2: "p2 = p\<lparr>currentAnswer := Some a, answerTime := Some t2, hasChangedAnswer := True\<rparr>"
  shows "map_of (players (gameState s1)) sid = Some p1
     \<and> map_of (players (gameState s2)) sid = Some p2
     \<and> playerFirstAnswers s2 sid = Some a
     \<and> (sid, p2) \<notin> set (unchangedCorrect s2)
     \<and> (distinct (map fst (players (gameState s))) \<and> \<not> isHost p
          \<and> currentQuestionIndex (gameState s) < length QUESTIONS
          \<and> a = correctAnswer (QUESTIONS ! currentQuestionIndex (gameState s)) \<longrightarrow>
        (player_id p = sid \<and> \<not> hasChangedAnswer p \<longrightarrow> (sid, p1) \<in> set (unchangedCorrect s1))
        \<and> (\<exists>s' evs. calculateScores s2 = Inr s' \<and> sent s' = sent s2 @ evs \<and>
          (if 3 < timer (gameState s)
           then map_of (players (gameState s')) sid = Some (credit 10 p2)
                \<and> AnswerFeedback (player_id p) True 10 ChangedCorrect \<in> set evs
           else map_of (players (gameState s')) sid = Some (credit 5 p2)
                \<and> AnswerFeedback (player_id p) True 5 ChangedFinalThree \<in> set evs)))"
proof -
  have q1: "state (gameState s1) = QUESTION" using q by (simp add: s1 submitAnswer_frame)
  have l1: "map_of (players (gameState s1)) sid = Some p1"
    and f1: "playerFirstAnswers s1 sid = Some a"
    using submitAnswer_effect[OF q look, of a t1] first by (simp_all add: s1 p1)
  have l2: "map_of (players (gameState s2)) sid = Some p2"
    and f2: "playerFirstAnswers s2 sid = Some a"
    using submitAnswer_effect[OF q1 l1, of a t2] f1 by (simp_all add: s2 p2 p1)
  have nq: "(sid, p2) \<notin> set (unchangedCorrect s2)"
    by (simp add: unchangedCorrect_def qualifies_def p2)
  have fr: "map fst (players (gameState s2)) = map fst (players (gameState s))"
    "timer (gameState s2) = timer (gameState s)"
    "currentQuestionIndex (gameState s2) = currentQuestionIndex (gameState s)"
    "currentQuestionIndex (gameState s1) = currentQuestionIndex (gameState s)"
    by (simp_all add: s1 s2 submitAnswer_frame)
  have tier: "(sid, p1) \<in> set (unchangedCorrect s1)"
    if h: "\<not> isHost p" "a = correctAnswer (QUESTIONS ! currentQuestionIndex (gameState s))"
      "player_id p = sid" "\<not> hasChangedAnswer p"
  proof -
    have "(sid, p1) \<in> set (players (gameState s1))" using l1 by (rule map_of_SomeD)
    moreover have "\<not> isHost p1" using h(1) by (simp add: p1)
    moreover have "qualifies (QUESTIONS ! currentQuestionIndex (gameState s1)) (playerFirstAnswers s1) p1"
      using h(2,3,4) f1 by (simp add: qualifies_def p1 fr)
    ultimately show ?thesis by (simp add: unchangedCorrect_def set_scoringOrder)
  qed
  have sc: "\<exists>s' evs. calculateScores s2 = Inr s' \<and> sent s' = sent s2 @ evs \<and>
          (if 3 < timer (gameState s)
           then map_of (players (gameState s')) sid = Some (credit 10 p2)
                \<and> AnswerFeedback (player_id p) True 10 ChangedCorrect \<in> set evs
           else map_of (players (gameState s')) sid = Some (credit 5 p2)
                \<and> AnswerFeedback (player_id p) True 5 ChangedFinalThree \<in> set evs)"
    if h: "distinct (map fst (players (gameState s)))" "\<not> isHost p"
      "currentQuestionIndex (gameState s) < length QUESTIONS"
      "a = correctAnswer (QUESTIONS ! currentQuestionIndex (gameState s))"
  proof -
    have P: "distinct (map fst (players (gameState s2)))" using h(1) by (simp add: fr)
    have I: "currentQuestionIndex (gameState s2) < length QUESTIONS" using h(3) by (simp add: fr)
    have F: "\<not> isHost p2" "hasChangedAnswer p2" "player_id p2 = player_id p"
      using h(2) by (simp_all add: p2)
    have C: "currentAnswer p2 = Some (correctAnswer (QUESTIONS ! currentQuestionIndex (gameState s2)))"
      using h(4) by (simp add: fr p2)
    from calculateScores_changed_correct[OF P I l2 F(1,2) C]
    show ?thesis unfolding fr(2) F(3) .
  qed
  show ?thesis using l1 l2 f2 nq sc tier by blast
qed

theorem resubmit_counts_as_change_witness:
  "map_of (players (gameState (submitAnswer ''p1'' 1 2000 exampleAnswering))) ''p1''
      = Some (examplePlayer ''p1'' (Some 1) False (Some 2000) False)
   \<and> (''p1'', examplePlayer ''p1'' (Some 1) False (Some 2000) False)
        \<in> set (unchangedCorrect (submitAnswer ''p1'' 1 2000 exampleAnswering))
   \<and> map_of (players (gameState (submitAnswer ''p1'' 1 3000 (submitAnswer ''p1'' 1 2000 exampleAnswering)))) ''p1''
      = Some (examplePlayer ''p1'' (Some 1) True (Some 3000) False)
   \<and> (''p1'', examplePlayer ''p1'' (Some 1) True (Some 3000) False)
        \<notin> set (unchangedCorrect (submitAnswer ''p1'' 1 3000 (submitAnswer ''p1'' 1 2000 exampleAnswering)))
   \<and> (\<exists>s'. calculateScores (submitAnswer ''p1'' 1 3000 (submitAnswer ''p1'' 1 2000 exampleAnswering)) = Inr s'
        \<and> map_of (players (gameState s')) ''p1''
             = Some (credit 10 (examplePlayer ''p1'' (Some 1) True (Some 3000) False)))"
proof -
  let ?p = "examplePlayer ''p1'' None False None False"
  have a: "state (gameState exampleAnswering) = QUESTION"
    "map_of (players (gameState exampleAnswering)) ''p1'' = Some ?p"
    "playerFirstAnswers exampleAnswering ''p1'' = None"
    by (simp_all add: exampleAnswering_def)
  have b: "distinct (map fst (players (gameState exampleAnswering)))" "\<not> isHost ?p"
    "currentQuestionIndex (gameState exampleAnswering) < length QUESTIONS"
    "1 = correctAnswer (QUESTIONS ! currentQuestionIndex (gameState exampleAnswering))"
    "player_id ?p = ''p1''" "\<not> hasChangedAnswer ?p" "3 < timer (gameState exampleAnswering)"
    by (simp_all add: exampleAnswering_def examplePlayer_def QUESTIONS_def)
  have p: "?p\<lparr>currentAnswer := Some 1, answerTime := Some 2000\<rparr>
             = examplePlayer ''p1'' (Some 1) False (Some 2000) False"
    "?p\<lparr>currentAnswer := Some 1, answerTime := Some 3000, hasChangedAnswer := True\<rparr>
             = examplePlayer ''p1'' (Some 1) True (Some 3000) False"
    by (simp_all add: examplePlayer_def)
  show ?thesis
    using resubmit_counts_as_change[OF a refl refl refl refl, of 1 2000 3000] b
    unfolding p by auto
qed

text \<open>
  C10. \<open>join\<close> stores a fresh participant record under the caller's key (score 0, last
  change 0, no answer, flag unset, no submission time) and does not touch the table of
  first answers. So when the caller had a first answer recorded and joins again during the
  answering phase, the next \<open>submitAnswer\<close> sets the changed-answer flag and the recorded
  first answer stays.
\<close>

theorem rejoin_keeps_first_answer:
  "playerFirstAnswers (join sid nm h av s) = playerFirstAnswers s
   \<and> map_of (players (gameState (join sid nm h av s))) sid =
       Some \<lparr>player_id = sid, name = nm, avatar = av, score = 0, lastScoreChange = 0,
             currentAnswer = None, hasChangedAnswer = False, answerTime = None,
             isHost = (h = Some True)\<rparr>
   \<and> (state (gameState s) = QUESTION \<and> playerFirstAnswers s sid = Some a \<longrightarrow>
        map_of (players (gameState (submitAnswer sid b t (join sid nm h av s)))) sid =
          Some \<lparr>player_id = sid, name = nm, avatar = av, score = 0, lastScoreChange = 0,
             currentAnswer = Some b, hasChangedAnswer = True, answerTime = Some t,
             isHost = (h = Some True)\<rparr>
        \<and> playerFirstAnswers (submitAnswer sid b t (join sid nm h av s)) = playerFirstAnswers s)"
  by (simp add: join_def submitAnswer_def handler_defs update_conv' map_of_map_entry Let_def)

theorem rejoin_keeps_first_answer_witness:
  "state (gameState (exampleSession QUESTION 0)) = QUESTION
   \<and> playerFirstAnswers (exampleSession QUESTION 0) ''p1'' = Some 0
   \<and> map_of (players (gameState (join ''p1'' ''Ann'' None None (exampleSession QUESTION 0)))) ''p1''
       = Some ((examplePlayer ''p1'' None False None False)\<lparr>name := ''Ann''\<rparr>)
   \<and> map_of (players (gameState
        (submitAnswer ''p1'' 0 1700 (join ''p1'' ''Ann'' None None (exampleSession QUESTION 0))))) ''p1''
       = Some ((examplePlayer ''p1'' (Some 0) True (Some 1700) False)\<lparr>name := ''Ann''\<rparr>)
   \<and> playerFirstAnswers
        (submitAnswer ''p1'' 0 1700 (join ''p1'' ''Ann'' None None (exampleSession QUESTION 0))) ''p1''
       = Some 0"
  using rejoin_keeps_first_answer[where s = "exampleSession QUESTION 0" and sid = "''p1''" and nm = "''Ann''"
      and h = None and av = None and a = 0 and b = 0 and t = 1700]
  by (simp add: exampleSession_def examplePlayer_def)

section \<open>Host commands\<close>

text \<open>
  C6. When the caller has no participant record, or has one whose host flag is false, each
  of \<open>hostStartGame\<close>, \<open>hostNextQuestion\<close> and \<open>hostResetGame\<close> returns the server
  unchanged, the log of emitted events included.
\<close>

theorem non_host_commands_ignored:
  assumes "map_of (players (gameState s)) sid = None
      \<or> (\<exists>p. map_of (players (gameState s)) sid = Some p \<and> \<not> isHost p)"
  shows "hostStartGame sid s = s \<and> hostNextQuestion sid s = s \<and> hostResetGame sid s = s
     \<and> sent (hostStartGame sid s) = sent s \<and> sent (hostNextQuestion sid s) = sent s
     \<and> sent (hostResetGame sid s) = sent s"
  using assms
  by (auto simp: hostStartGame_def hostNextQuestion_def hostResetGame_def callerIsHost_def)

theorem non_host_commands_ignored_witness:
  "map_of (players (gameState (exampleSession LOBBY 0))) ''zz'' = None
   \<and> hostStartGame ''zz'' (exampleSession LOBBY 0) = exampleSession LOBBY 0
   \<and> hostNextQuestion ''zz'' (exampleSession LEADERBOARD 0) = exampleSession LEADERBOARD 0
   \<and> hostResetGame ''zz'' (exampleSession FINAL_RESULTS 4) = exampleSession FINAL_RESULTS 4
   \<and> hostStartGame ''p1'' (exampleSession LOBBY 0) = exampleSession LOBBY 0
   \<and> hostNextQuestion ''p1'' (exampleSession LEADERBOARD 0) = exampleSession LEADERBOARD 0
   \<and> hostResetGame ''p1'' (exampleSession FINAL_RESULTS 4) = exampleSession FINAL_RESULTS 4"
proof -
  have a: "map_of (players (gameState (exampleSession st i))) ''zz'' = None" for st i
    by (simp add: exampleSession_def)
  have b: "\<exists>p. map_of (players (gameState (exampleSession st i))) ''p1'' = Some p \<and> \<not> isHost p" for st i
    by (simp add: exampleSession_def examplePlayer_def)
  show ?thesis
    using non_host_commands_ignored[OF disjI1, OF a, of LOBBY 0] non_host_commands_ignored[OF disjI1, OF a, of LEADERBOARD 0]
      non_host_commands_ignored[OF disjI1, OF a, of FINAL_RESULTS 4]
      non_host_commands_ignored[OF disjI2, OF b, of LOBBY 0] non_host_commands_ignored[OF disjI2, OF b, of LEADERBOARD 0]
      non_host_commands_ignored[OF disjI2, OF b, of FINAL_RESULTS 4] a
    by simp
qed

lemma startReadingPhase_fields:
  "state (gameState (startReadingPhase s)) = READING
   \<and> currentQuestionIndex (gameState (startReadingPhase s)) = currentQuestionIndex (gameState s)
   \<and> questions (gameState (startReadingPhase s)) = questions (gameState s)
   \<and> players (gameState (startReadingPhase s)) =
       map (\<lambda>(k, p). (k, p\<lparr>currentAnswer := None, hasChangedAnswer := False, lastScoreChange := 0\<rparr>))
         (players (gameState s))
   \<and> timer (gameState (startReadingPhase s)) = 5
   \<and> playerFirstAnswers (startReadingPhase s) = Map.empty
   \<and> timerInterval (startReadingPhase s) = Some ToQuestion
   \<and> sent (startReadingPhase s) = sent s @ [GameUpdate (gameState (startReadingPhase s))]"
  by (simp add: startReadingPhase_def handler_defs Let_def)

text \<open>
  C3, as the code has it. Entering the reading phase sets the phase to \<open>READING\<close>, resets
  every participant's selected option, changed-answer flag and last score change, keeps
  every participant's submission time, empties the table of first answers, and replaces
  whatever interval was running by the 5-second reading countdown, which it broadcasts.
\<close>

theorem startReadingPhase_resets:
  "state (gameState (startReadingPhase s)) = READING
   \<and> players (gameState (startReadingPhase s)) =
       map (\<lambda>(k, p). (k, p\<lparr>currentAnswer := None, hasChangedAnswer := False, lastScoreChange := 0\<rparr>))
         (players (gameState s))
   \<and> map (\<lambda>kp. answerTime (snd kp)) (players (gameState (startReadingPhase s)))
       = map (\<lambda>kp. answerTime (snd kp)) (players (gameState s))
   \<and> playerFirstAnswers (startReadingPhase s) = Map.empty
   \<and> timer (gameState (startReadingPhase s)) = 5
   \<and> timerInterval (startReadingPhase s) = Some ToQuestion
   \<and> currentQuestionIndex (gameState (startReadingPhase s)) = currentQuestionIndex (gameState s)
   \<and> sent (startReadingPhase s) = sent s @ [GameUpdate (gameState (startReadingPhase s))]"
  by (simp add: startReadingPhase_fields case_prod_beta comp_def)

theorem startReadingPhase_resets_witness:
  "state (gameState (startReadingPhase (exampleSession LEADERBOARD 0))) = READING
   \<and> players (gameState (startReadingPhase (exampleSession LEADERBOARD 0))) =
        [(''h'', examplePlayer ''h'' None False None True),
         (''p1'', (examplePlayer ''p1'' None False (Some 1000) False)\<lparr>score := 20\<rparr>)]
   \<and> playerFirstAnswers (startReadingPhase (exampleSession LEADERBOARD 0)) ''p1'' = None
   \<and> timer (gameState (startReadingPhase (exampleSession LEADERBOARD 0))) = 5
   \<and> timerInterval (startReadingPhase (exampleSession LEADERBOARD 0)) = Some ToQuestion"
  using startReadingPhase_resets[of "exampleSession LEADERBOARD 0"]
  by (simp add: exampleSession_def examplePlayer_def)

text \<open>
  The claim as stated fails: a submission time recorded for the previous question is still
  there after the reading phase has been entered.
\<close>

theorem startReadingPhase_keeps_answerTime:
  "map_of (players (gameState (exampleSession LEADERBOARD 0))) ''p1''
     = Some ((examplePlayer ''p1'' (Some 0) False (Some 1000) False)\<lparr>score := 20, lastScoreChange := 20\<rparr>)
   \<and> map_of (players (gameState (startReadingPhase (exampleSession LEADERBOARD 0)))) ''p1''
     = Some ((examplePlayer ''p1'' None False (Some 1000) False)\<lparr>score := 20\<rparr>)
   \<and> answerTime ((examplePlayer ''p1'' None False (Some 1000) False)\<lparr>score := 20\<rparr>) \<noteq> None"
  by (simp add: startReadingPhase_fields exampleSession_def examplePlayer_def)

text \<open>
  C4, as the code has it. \<open>hostStartGame\<close> has no phase check: whenever the caller is a
  host, in any phase, it sets every participant's score and last score change to 0, sets the
  question index to 0 and enters the reading phase for question 0.
\<close>

theorem hostStartGame_any_phase:
  assumes "map_of (players (gameState s)) sid = Some h" and "isHost h"
  shows "state (gameState (hostStartGame sid s)) = READING
   \<and> currentQuestionIndex (gameState (hostStartGame sid s)) = 0
   \<and> players (gameState (hostStartGame sid s)) =
       map (\<lambda>(k, p). (k, p\<lparr>score := 0, lastScoreChange := 0, currentAnswer := None,
                           hasChangedAnswer := False\<rparr>))
         (players (gameState s))
   \<and> timer (gameState (hostStartGame sid s)) = 5
   \<and> playerFirstAnswers (hostStartGame sid s) = Map.empty
   \<and> timerInterval (hostStartGame sid s) = Some ToQuestion
   \<and> sent (hostStartGame sid s) = sent s @ [GameUpdate (gameState (hostStartGame sid s))]"
  using assms
  by (simp add: hostStartGame_def callerIsHost_def startReadingPhase_fields)
     (simp add: handler_defs case_prod_beta comp_def)

theorem hostStartGame_any_phase_witness:
  "state (gameState (hostStartGame ''h'' (exampleSession LOBBY 0))) = READING
   \<and> map (\<lambda>kp. score (snd kp)) (players (gameState (hostStartGame ''h'' (exampleSession LOBBY 0))))
        = [0, 0]
   \<and> state (gameState (exampleSession LEADERBOARD 2)) = LEADERBOARD
   \<and> state (gameState (hostStartGame ''h'' (exampleSession LEADERBOARD 2))) = READING
   \<and> currentQuestionIndex (gameState (hostStartGame ''h'' (exampleSession LEADERBOARD 2))) = 0
   \<and> players (gameState (hostStartGame ''h'' (exampleSession LEADERBOARD 2))) =
        [(''h'', examplePlayer ''h'' None False None True),
         (''p1'', examplePlayer ''p1'' None False (Some 1000) False)]"
  using hostStartGame_any_phase[of "exampleSession LEADERBOARD 2" "''h''"
          "examplePlayer ''h'' None False None True"]
    hostStartGame_any_phase[of "exampleSession LOBBY 0" "''h''"
          "examplePlayer ''h'' None False None True"]
  by (simp add: exampleSession_def examplePlayer_def)

text \<open>
  The claim as stated fails: a host's \<open>hostStartGame\<close> during the reveal phase is not
  ignored.
\<close>

theorem hostStartGame_outside_lobby:
  "callerIsHost ''h'' (exampleSession REVEAL 2)
   \<and> state (gameState (exampleSession REVEAL 2)) \<noteq> LOBBY
   \<and> hostStartGame ''h'' (exampleSession REVEAL 2) \<noteq> exampleSession REVEAL 2"
proof -
  have h: "callerIsHost ''h'' (exampleSession REVEAL 2)"
    by (simp add: callerIsHost_def exampleSession_def examplePlayer_def)
  have a: "state (gameState (exampleSession REVEAL 2)) = REVEAL"
    by (simp add: exampleSession_def)
  have b: "state (gameState (hostStartGame ''h'' (exampleSession REVEAL 2))) = READING"
    using h by (simp add: hostStartGame_def startReadingPhase_fields)
  have "hostStartGame ''h'' (exampleSession REVEAL 2) \<noteq> exampleSession REVEAL 2"
  proof
    assume "hostStartGame ''h'' (exampleSession REVEAL 2) = exampleSession REVEAL 2"
    then have "state (gameState (exampleSession REVEAL 2)) = READING" using b by simp
    then show False using a by simp
  qed
  then show ?thesis using h a by simp
qed

text \<open>
  C5, as the code has it. \<open>hostNextQuestion\<close> has no phase check: whenever the caller is a
  host, in any phase, it increments the question index and enters the reading phase when the
  index is below the last index of the bank, and otherwise sets the phase to
  \<open>FINAL_RESULTS\<close>, keeps the index and the participants, and broadcasts.
\<close>

theorem hostNextQuestion_any_phase:
  assumes "map_of (players (gameState s)) sid = Some h" and "isHost h"
  shows "if currentQuestionIndex (gameState s) < length QUESTIONS - 1
    then state (gameState (hostNextQuestion sid s)) = READING
       \<and> currentQuestionIndex (gameState (hostNextQuestion sid s))
           = currentQuestionIndex (gameState s) + 1
       \<and> timer (gameState (hostNextQuestion sid s)) = 5
       \<and> timerInterval (hostNextQuestion sid s) = Some ToQuestion
       \<and> playerFirstAnswers (hostNextQuestion sid s) = Map.empty
    else state (gameState (hostNextQuestion sid s)) = FINAL_RESULTS
       \<and> currentQuestionIndex (gameState (hostNextQuestion sid s))
           = currentQuestionIndex (gameState s)
       \<and> players (gameState (hostNextQuestion sid s)) = players (gameState s)
       \<and> sent (hostNextQuestion sid s)
           = sent s @ [GameUpdate (gameState (hostNextQuestion sid s))]"
  using assms
  by (simp add: hostNextQuestion_def callerIsHost_def startReadingPhase_fields)
     (simp add: handler_defs)

theorem hostNextQuestion_any_phase_witness:
  "state (gameState (hostNextQuestion ''h'' (exampleSession LEADERBOARD 3))) = READING
   \<and> currentQuestionIndex (gameState (hostNextQuestion ''h'' (exampleSession LEADERBOARD 3))) = 4
   \<and> state (gameState (hostNextQuestion ''h'' (exampleSession LEADERBOARD 4))) = FINAL_RESULTS
   \<and> currentQuestionIndex (gameState (hostNextQuestion ''h'' (exampleSession LEADERBOARD 4))) = 4
   \<and> state (gameState (hostNextQuestion ''h'' (exampleSession QUESTION 1))) = READING
   \<and> currentQuestionIndex (gameState (hostNextQuestion ''h'' (exampleSession QUESTION 1))) = 2"
  using hostNextQuestion_any_phase[of "exampleSession LEADERBOARD 3" "''h''" "examplePlayer ''h'' None False None True"]
    hostNextQuestion_any_phase[of "exampleSession LEADERBOARD 4" "''h''" "examplePlayer ''h'' None False None True"]
    hostNextQuestion_any_phase[of "exampleSession QUESTION 1" "''h''" "examplePlayer ''h'' None False None True"]
  by (simp add: exampleSession_def examplePlayer_def QUESTIONS_def)

text \<open>
  The claim as stated fails: a host's \<open>hostNextQuestion\<close> in the lobby is not ignored.
\<close>

theorem hostNextQuestion_outside_leaderboard:
  "callerIsHost ''h'' (exampleSession LOBBY 0)
   \<and> state (gameState (exampleSession LOBBY 0)) \<noteq> LEADERBOARD
   \<and> hostNextQuestion ''h'' (exampleSession LOBBY 0) \<noteq> exampleSession LOBBY 0"
proof -
  have h: "callerIsHost ''h'' (exampleSession LOBBY 0)"
    by (simp add: callerIsHost_def exampleSession_def examplePlayer_def)
  have a: "state (gameState (exampleSession LOBBY 0)) = LOBBY"
    by (simp add: exampleSession_def)
  have i: "currentQuestionIndex (gameState (exampleSession LOBBY 0)) < length QUESTIONS - 1"
    by (simp add: exampleSession_def QUESTIONS_def)
  have b: "state (gameState (hostNextQuestion ''h'' (exampleSession LOBBY 0))) = READING"
    using h i by (simp add: hostNextQuestion_def startReadingPhase_fields)
  have "hostNextQuestion ''h'' (exampleSession LOBBY 0) \<noteq> exampleSession LOBBY 0"
  proof
    assume "hostNextQuestion ''h'' (exampleSession LOBBY 0) = exampleSession LOBBY 0"
    then have "state (gameState (exampleSession LOBBY 0)) = READING" using b by simp
    then show False using a by simp
  qed
  then show ?thesis using h a by simp
qed

end
